theory Spec2Isabelle
  imports Main "HOL-Library.Sublist"
begin

section \<open>The batch converter \<open>compile.py\<close>\<close>

text \<open>
  The script under verification:
  \<^verbatim>\<open>
  wats = glob("wat/*.wat")
  for w in wats:
      cmd = "./wat2wasm "+w+" -o wasm/"+w.split("/")[-1].replace(".wat",".wasm")
      print(cmd)
      os.system(cmd)
  \<close>
  Strings are \<open>string\<close>; the file system, the console and the shell are explicit
  parameters and results.
\<close>

subsection \<open>Python string operations\<close>

datatype error = IndexError | OSError

text \<open>
  \<open>s.split(sep)\<close> for a one-character separator: the string is cut at every
  occurrence of the separator, so the result has one more element than there are
  separators and is never empty.
\<close>

fun split_py :: "char \<Rightarrow> string \<Rightarrow> string list" where
  "split_py sep [] = [[]]"
| "split_py sep (c # cs) =
     (if c = sep then [] # split_py sep cs
      else (case split_py sep cs of
              [] \<Rightarrow> [[c]]
            | seg # segs \<Rightarrow> (c # seg) # segs))"

text \<open>\<open>xs[-1]\<close>: the last element; \<open>IndexError\<close> on the empty list.\<close>

definition index_last :: "'a list \<Rightarrow> error + 'a" where
  "index_last xs = (if xs = [] then Inl IndexError else Inr (last xs))"

text \<open>
  \<open>s.replace(old, new)\<close>: scanning from the left, every non-overlapping occurrence
  of \<open>old\<close> is replaced by \<open>new\<close>. For the empty \<open>old\<close> Python inserts \<open>new\<close> before
  every character and at the end.
\<close>

function replace_py :: "string \<Rightarrow> string \<Rightarrow> string \<Rightarrow> string" where
  "replace_py old new [] = (if old = [] then new else [])"
| "replace_py old new (c # cs) =
     (if old = [] then new @ c # replace_py old new cs
      else if prefix old (c # cs)
        then new @ replace_py old new (drop (length old) (c # cs))
      else c # replace_py old new cs)"
  by pat_completeness auto
termination
  by (relation "measure (\<lambda>(old, new, s). length s)") auto

subsection \<open>The command line of one input\<close>

text \<open>
  The subexpression \<open>w.split("/")[-1].replace(".wat",".wasm")\<close>: the output base name.
\<close>

definition out_name :: "string \<Rightarrow> error + string" where
  "out_name w =
     (case index_last (split_py CHR ''/'' w) of
        Inl e \<Rightarrow> Inl e
      | Inr b \<Rightarrow> Inr (replace_py ''.wat'' ''.wasm'' b))"

text \<open>The whole right-hand side of the assignment to \<open>cmd\<close>.\<close>

definition cmd :: "string \<Rightarrow> error + string" where
  "cmd w =
     (case out_name w of
        Inl e \<Rightarrow> Inl e
      | Inr n \<Rightarrow> Inr (''./wat2wasm '' @ w @ '' -o wasm/'' @ n))"

text \<open>
  The output path is the last shell word of the command: the literal \<open>wasm/\<close> that ends
  the third string constant, followed by the output base name.
\<close>

definition out_path :: "string \<Rightarrow> error + string" where
  "out_path w =
     (case out_name w of
        Inl e \<Rightarrow> Inl e
      | Inr n \<Rightarrow> Inr (''wasm/'' @ n))"

subsection \<open>The file system and \<open>glob\<close>\<close>

text \<open>
  A directory is the list of its entries in the order the operating system lists them.
\<close>

datatype node = File | Dir "(string \<times> node) list"

text \<open>
  \<open>glob\<close> lists the directory with \<open>os.scandir\<close> and treats every \<open>OSError\<close> (no such
  directory, not a directory) as an empty listing.
\<close>

fun listdir :: "node option \<Rightarrow> string list" where
  "listdir (Some (Dir es)) = map fst es"
| "listdir (Some File) = []"
| "listdir None = []"

text \<open>
  \<open>fnmatch\<close> for patterns built from \<open>*\<close> (any run of characters), \<open>?\<close> (any one
  character) and literal characters; the whole name has to match.
\<close>

fun fnmatch :: "string \<Rightarrow> string \<Rightarrow> bool" where
  "fnmatch [] n = (n = [])"
| "fnmatch (p # ps) [] = (p = CHR ''*'' \<and> fnmatch ps [])"
| "fnmatch (p # ps) (c # cs) =
     (if p = CHR ''*'' then fnmatch ps (c # cs) \<or> fnmatch (p # ps) cs
      else if p = CHR ''?'' then fnmatch ps cs
      else p = c \<and> fnmatch ps cs)"

text \<open>
  \<open>glob\<close> drops the names that start with a dot unless the pattern itself starts
  with one. Directory entries are never empty.
\<close>

fun ishidden :: "string \<Rightarrow> bool" where
  "ishidden [] = False"
| "ishidden (c # cs) = (c = CHR ''.'')"

text \<open>
  \<open>glob("wat/*.wat")\<close> from the working directory \<open>cwd\<close>: the pattern splits into
  the literal directory \<open>wat\<close> and the base pattern \<open>*.wat\<close>; the matching entries of
  that one directory are returned, joined to the directory name, in listing order.
\<close>

definition glob_wat :: "(string \<times> node) list \<Rightarrow> string list" where
  "glob_wat cwd =
     map (\<lambda>n. ''wat/'' @ n)
       (filter (\<lambda>n. fnmatch ''*.wat'' n)
         (filter (\<lambda>n. \<not> ishidden n) (listdir (map_of cwd ''wat''))))"

subsection \<open>The loop and its effects\<close>

text \<open>
  The observable effects, in the order they happen: a line printed to the console, and
  a call of \<open>os.system\<close> that has returned with an exit status.
\<close>

datatype event = Print string | System string int

text \<open>
  \<open>os.system\<close> is a parameter: given the command and the state of the outside world
  it returns the exit status, or \<open>None\<close> when it raises, and the new state of the world.
\<close>

type_synonym 's os_system = "string \<Rightarrow> 's \<Rightarrow> int option \<times> 's"

fun for_loop ::
  "'s os_system \<Rightarrow> string list \<Rightarrow> 's \<times> event list
     \<Rightarrow> error \<times> 's \<times> event list + 's \<times> event list" where
  "for_loop sys [] st = Inr st"
| "for_loop sys (w # ws) (s, tr) =
     (case cmd w of
        Inl e \<Rightarrow> Inl (e, s, tr)
      | Inr c \<Rightarrow>
          (case sys c s of
             (None, s') \<Rightarrow> Inl (OSError, s', tr @ [Print c])
           | (Some status, s') \<Rightarrow> for_loop sys ws (s', tr @ [Print c, System c status])))"

text \<open>The script: one listing, then the loop, starting from an empty trace.\<close>

definition compile :: "'s os_system \<Rightarrow> (string \<times> node) list \<Rightarrow> 's
     \<Rightarrow> error \<times> 's \<times> event list + 's \<times> event list" where
  "compile sys cwd s = for_loop sys (glob_wat cwd) (s, [])"





subsection \<open>The name derivation as the specification words it\<close>

text \<open>
  The specification describes the derivation as: take the base name (the last path
  segment), replace the extension suffix \<open>.wat\<close> by \<open>.wasm\<close> (a name without that
  suffix is left alone), and put the result into the directory \<open>wasm/\<close>. These three
  definitions follow that wording, to be compared with \<open>out_name\<close> and \<open>out_path\<close>.
\<close>

definition spec_basename :: "string \<Rightarrow> string" where
  "spec_basename w = rev (takeWhile (\<lambda>c. c \<noteq> CHR ''/'') (rev w))"



section \<open>Facts about the string operations, the listing and the loop\<close>

lemma split_py_nonempty: "split_py sep s \<noteq> []"
  by (induction s) (auto split: list.splits)

lemma split_py_snoc:
  "split_py sep (a @ [x]) =
     (if x = sep then split_py sep a @ [[]]
      else butlast (split_py sep a) @ [last (split_py sep a) @ [x]])"
  using split_py_nonempty [of sep]
  by (induction a) (auto split: list.splits)

lemma last_split_py:
  "last (split_py sep w) = rev (takeWhile (\<lambda>c. c \<noteq> sep) (rev w))"
  by (induction w rule: rev_induct) (simp_all add: split_py_snoc)

lemma index_last_split_py:
  "index_last (split_py sep w) = Inr (rev (takeWhile (\<lambda>c. c \<noteq> sep) (rev w)))"
  by (simp add: index_last_def split_py_nonempty last_split_py)

lemma fnmatch_star:
  "fnmatch (CHR ''*'' # ps) n \<longleftrightarrow> (\<exists>t. suffix t n \<and> fnmatch ps t)"
  by (induction n) (auto simp: suffix_Cons)

lemma fnmatch_literal:
  "CHR ''*'' \<notin> set p \<Longrightarrow> CHR ''?'' \<notin> set p \<Longrightarrow> fnmatch p n \<longleftrightarrow> n = p"
  by (induction p n rule: fnmatch.induct) auto

lemma fnmatch_wat: "fnmatch ''*.wat'' n \<longleftrightarrow> suffix ''.wat'' n"
  by (simp only: fnmatch_star) (simp add: fnmatch_literal)

lemma prefix_wat_append:
  "pre \<noteq> [] \<Longrightarrow> prefix ''.wat'' (pre @ ''.wat'' @ post) \<longleftrightarrow> prefix ''.wat'' pre"
  apply (cases pre; simp)
  subgoal for c1 p1
    apply (cases p1; simp)
    subgoal for c2 p2
      apply (cases p2; simp)
      subgoal for c3 p3
        by (cases p3; simp)
      done
    done
  done

lemma replace_py_skip:
  "old \<noteq> [] \<Longrightarrow> \<not> prefix old (c # cs) \<Longrightarrow>
     replace_py old new (c # cs) = c # replace_py old new cs"
  by simp

lemma replace_py_hit:
  "old \<noteq> [] \<Longrightarrow> replace_py old new (old @ r) = new @ replace_py old new r"
  by (cases old) simp_all

lemma replace_wat_occurrence:
  "replace_py ''.wat'' ''.wasm'' (pre @ ''.wat'' @ post) =
     replace_py ''.wat'' ''.wasm'' pre @ ''.wasm'' @ replace_py ''.wat'' ''.wasm'' post"
proof (induction pre rule: length_induct)
  case (1 pre)
  have ne: "''.wat'' \<noteq> []" by simp
  show ?case
  proof (cases pre)
    case Nil
    then show ?thesis using replace_py_hit [OF ne, of "''.wasm''" post] by simp
  next
    case (Cons c cs)
    show ?thesis
    proof (cases "prefix ''.wat'' pre")
      case True
      then obtain r where r: "pre = ''.wat'' @ r" by (auto simp: prefix_def)
      then have "length r < length pre" by simp
      with 1 have ih: "replace_py ''.wat'' ''.wasm'' (r @ ''.wat'' @ post) =
        replace_py ''.wat'' ''.wasm'' r @ ''.wasm'' @ replace_py ''.wat'' ''.wasm'' post"
        by blast
      have "replace_py ''.wat'' ''.wasm'' (pre @ ''.wat'' @ post) =
        ''.wasm'' @ replace_py ''.wat'' ''.wasm'' (r @ ''.wat'' @ post)"
        unfolding r append_assoc by (rule replace_py_hit [OF ne])
      moreover have "replace_py ''.wat'' ''.wasm'' pre = ''.wasm'' @ replace_py ''.wat'' ''.wasm'' r"
        unfolding r by (rule replace_py_hit [OF ne])
      ultimately show ?thesis by (simp only: ih append_assoc)
    next
      case False
      with Cons have np: "\<not> prefix ''.wat'' (c # (cs @ ''.wat'' @ post))"
        using prefix_wat_append [of pre post] by simp
      have "length cs < length pre" using Cons by simp
      with 1 have ih: "replace_py ''.wat'' ''.wasm'' (cs @ ''.wat'' @ post) =
        replace_py ''.wat'' ''.wasm'' cs @ ''.wasm'' @ replace_py ''.wat'' ''.wasm'' post"
        by blast
      have l: "replace_py ''.wat'' ''.wasm'' (c # (cs @ ''.wat'' @ post)) =
        c # replace_py ''.wat'' ''.wasm'' (cs @ ''.wat'' @ post)"
        by (rule replace_py_skip [OF ne np])
      have "\<not> prefix ''.wat'' (c # cs)" using False Cons by simp
      then have r: "replace_py ''.wat'' ''.wasm'' (c # cs) = c # replace_py ''.wat'' ''.wasm'' cs"
        by (rule replace_py_skip [OF ne])
      have "replace_py ''.wat'' ''.wasm'' (pre @ ''.wat'' @ post) =
        replace_py ''.wat'' ''.wasm'' (c # (cs @ ''.wat'' @ post))"
        by (simp only: Cons append_Cons)
      also have "\<dots> = c # (replace_py ''.wat'' ''.wasm'' cs @ ''.wasm'' @
        replace_py ''.wat'' ''.wasm'' post)"
        by (simp only: l ih)
      also have "\<dots> = replace_py ''.wat'' ''.wasm'' pre @ ''.wasm'' @
        replace_py ''.wat'' ''.wasm'' post"
        unfolding Cons r by (rule append_Cons [symmetric])
      finally show ?thesis .
    qed
  qed
qed


lemma set_replace_py:
  "set (replace_py old new s) \<subseteq> set s \<union> set new"
proof (induction old new s rule: replace_py.induct)
  case (1 old new)
  then show ?case by auto
next
  case (2 old new c cs)
  have "set (drop (length old) (c # cs)) \<subseteq> set (c # cs)"
    by (rule set_drop_subset)
  with 2 show ?case by (auto simp del: drop_Suc_Cons)
qed

lemma last_split_py_basename: "last (split_py CHR ''/'' w) = spec_basename w"
  by (simp add: spec_basename_def last_split_py)

lemma out_name_total: "out_name w = Inr (replace_py ''.wat'' ''.wasm'' (spec_basename w))"
  by (simp add: out_name_def index_last_def split_py_nonempty last_split_py_basename)

lemma cmd_total:
  "cmd w = Inr (''./wat2wasm '' @ w @ '' -o wasm/'' @ replace_py ''.wat'' ''.wasm'' (spec_basename w))"
  by (simp add: cmd_def out_name_total)

lemma out_path_total:
  "out_path w = Inr (''wasm/'' @ replace_py ''.wat'' ''.wasm'' (spec_basename w))"
  by (simp add: out_path_def out_name_total)

lemma spec_basename_append:
  "CHR ''/'' \<notin> set b \<Longrightarrow> spec_basename (a @ b) = spec_basename a @ b"
proof -
  assume b: "CHR ''/'' \<notin> set b"
  have "takeWhile (\<lambda>c. c \<noteq> CHR ''/'') (rev b @ rev a) =
    rev b @ takeWhile (\<lambda>c. c \<noteq> CHR ''/'') (rev a)"
    by (rule takeWhile_append2) (use b in auto)
  then show ?thesis by (simp add: spec_basename_def)
qed

lemma spec_basename_no_slash: "CHR ''/'' \<notin> set (spec_basename w)"
  by (auto simp: spec_basename_def dest: set_takeWhileD)

lemma glob_wat_set:
  "set (glob_wat cwd) =
     {''wat/'' @ n | n. n \<in> set (listdir (map_of cwd ''wat'')) \<and> \<not> ishidden n \<and> suffix ''.wat'' n}"
  by (auto simp: glob_wat_def fnmatch_wat)

lemma glob_wat_basename:
  assumes "w \<in> set (glob_wat cwd)"
  shows "\<exists>stem. spec_basename w = stem @ ''.wat''"
proof -
  from assms obtain n where "w = ''wat/'' @ n" "suffix ''.wat'' n"
    by (auto simp: glob_wat_set)
  then obtain r where "w = (''wat/'' @ r) @ ''.wat''"
    by (auto simp: suffix_def)
  then have "spec_basename w = spec_basename (''wat/'' @ r) @ ''.wat''"
    by (simp only: spec_basename_append [of "''.wat''", simplified])
  then show ?thesis by blast
qed

lemma replace_wat_suffix:
  "replace_py ''.wat'' ''.wasm'' (stem @ ''.wat'') = replace_py ''.wat'' ''.wasm'' stem @ ''.wasm''"
  using replace_wat_occurrence [of stem "[]"] by simp









section \<open>The claims of the specification\<close>

subsection \<open>C1: the shape of the command line\<close>

text \<open>
  C1. For every input path (so for every path that \<open>glob\<close> returns) the command is
  the tool path, the input path, the flag \<open>-o\<close> and the computed output path, separated
  by single spaces, in that order, and no error is raised while it is built. For
  \<open>wat/a.wat\<close> it is \<open>./wat2wasm wat/a.wat -o wasm/a.wasm\<close>.
\<close>

theorem cmd_invocation_shape:
  "(\<exists>out. out_path w = Inr out \<and>
      cmd w = Inr (''./wat2wasm'' @ '' '' @ w @ '' '' @ ''-o'' @ '' '' @ out)) \<and>
   cmd ''wat/a.wat'' = Inr ''./wat2wasm wat/a.wat -o wasm/a.wasm''"
proof -
  have "cmd ''wat/a.wat'' = Inr ''./wat2wasm wat/a.wat -o wasm/a.wasm''"
    by (simp add: cmd_def out_name_def index_last_def)
  then show ?thesis
    by (simp add: cmd_total out_path_total)
qed

subsection \<open>C2: the derivation of the output path\<close>




subsection \<open>C3: the extension substitution\<close>




subsection \<open>C4: the enumeration is extension-exact\<close>



subsection \<open>C5: a failing invocation does not stop the batch\<close>



subsection \<open>C6: no work on an empty input\<close>

text \<open>
  C6. When the directory \<open>wat\<close> does not exist, or holds no name ending in \<open>.wat\<close>,
  nothing is selected, no command is constructed, and the run ends normally with an
  empty trace and the outside world unchanged.
\<close>

theorem no_op_on_empty_input:
  assumes "map_of cwd ''wat'' = None \<or>
           (\<exists>es. map_of cwd ''wat'' = Some (Dir es) \<and> (\<forall>n\<in>set (map fst es). \<not> suffix ''.wat'' n))"
  shows "glob_wat cwd = [] \<and> map cmd (glob_wat cwd) = [] \<and> compile sys cwd s = Inr (s, [])"
proof -
  from assms have "set (glob_wat cwd) = {}"
    by (auto simp: glob_wat_set)
  then have "glob_wat cwd = []" by simp
  then show ?thesis by (simp add: compile_def)
qed

text \<open>
  C6 at a directory \<open>wat\<close> that holds only \<open>c.txt\<close>.
\<close>

theorem no_op_on_empty_input_witness:
  "(map_of [(''wat'', Dir [(''c.txt'', File)])] ''wat'' = None \<or>
     (\<exists>es. map_of [(''wat'', Dir [(''c.txt'', File)])] ''wat'' = Some (Dir es) \<and>
        (\<forall>n\<in>set (map fst es). \<not> suffix ''.wat'' n))) \<and>
   glob_wat [(''wat'', Dir [(''c.txt'', File)])] = [] \<and>
   map cmd (glob_wat [(''wat'', Dir [(''c.txt'', File)])]) = [] \<and>
   compile (\<lambda>c s. (Some 0, s)) [(''wat'', Dir [(''c.txt'', File)])] () = Inr ((), [])"
proof -
  have h: "map_of [(''wat'', Dir [(''c.txt'', File)])] ''wat'' = None \<or>
     (\<exists>es. map_of [(''wat'', Dir [(''c.txt'', File)])] ''wat'' = Some (Dir es) \<and>
        (\<forall>n\<in>set (map fst es). \<not> suffix ''.wat'' n))"
    by (simp add: suffix_to_prefix)
  note t = no_op_on_empty_input [OF h, of "\<lambda>c s. (Some 0, s)" "()"]
  from h t show ?thesis by (rule conjI)
qed

subsection \<open>C7: a second run does the same work\<close>



subsection \<open>C8: the order of the effects\<close>


subsection \<open>C9: no recursion, no hidden files\<close>

text \<open>
  C9. Directory entries contain no path separator. Then \<open>wat/sub/x.wat\<close> and
  \<open>wat/.hidden.wat\<close> are never selected, and every selected path is \<open>wat/\<close> followed
  by the name of a direct entry of \<open>wat\<close> that does not start with a dot.
\<close>

theorem glob_not_recursive_not_hidden:
  assumes "\<forall>n\<in>set (listdir (map_of cwd ''wat'')). CHR ''/'' \<notin> set n"
  shows "''wat/sub/x.wat'' \<notin> set (glob_wat cwd) \<and>
         ''wat/.hidden.wat'' \<notin> set (glob_wat cwd) \<and>
         (\<forall>p\<in>set (glob_wat cwd). \<exists>n. p = ''wat/'' @ n \<and>
            n \<in> set (listdir (map_of cwd ''wat'')) \<and> CHR ''/'' \<notin> set n \<and> \<not> ishidden n)"
proof (intro conjI)
  show "''wat/sub/x.wat'' \<notin> set (glob_wat cwd)"
  proof
    assume "''wat/sub/x.wat'' \<in> set (glob_wat cwd)"
    then have "''sub/x.wat'' \<in> set (listdir (map_of cwd ''wat''))"
      by (auto simp: glob_wat_set)
    with assms have "CHR ''/'' \<notin> set ''sub/x.wat''" by blast
    then show False by simp
  qed
next
  show "''wat/.hidden.wat'' \<notin> set (glob_wat cwd)"
  proof
    assume "''wat/.hidden.wat'' \<in> set (glob_wat cwd)"
    then have "\<not> ishidden ''.hidden.wat''"
      by (auto simp: glob_wat_set)
    then show False by simp
  qed
next
  show "\<forall>p\<in>set (glob_wat cwd). \<exists>n. p = ''wat/'' @ n \<and>
            n \<in> set (listdir (map_of cwd ''wat'')) \<and> CHR ''/'' \<notin> set n \<and> \<not> ishidden n"
    using assms by (auto simp: glob_wat_set)
qed

text \<open>
  C9 at a directory with a hidden file and a subdirectory that holds \<open>x.wat\<close>.
\<close>

theorem glob_not_recursive_not_hidden_witness:
  "list_all (\<lambda>n. CHR ''/'' \<notin> set n)
     (listdir (map_of [(''wat'', Dir [(''a.wat'', File), (''.hidden.wat'', File),
        (''sub'', Dir [(''x.wat'', File)])])] ''wat'')) \<and>
   glob_wat [(''wat'', Dir [(''a.wat'', File), (''.hidden.wat'', File),
        (''sub'', Dir [(''x.wat'', File)])])] = [''wat/a.wat''] \<and>
   ''wat/sub/x.wat'' \<notin> set (glob_wat [(''wat'', Dir [(''a.wat'', File), (''.hidden.wat'', File),
        (''sub'', Dir [(''x.wat'', File)])])]) \<and>
   ''wat/.hidden.wat'' \<notin> set (glob_wat [(''wat'', Dir [(''a.wat'', File), (''.hidden.wat'', File),
        (''sub'', Dir [(''x.wat'', File)])])])"
proof -
  let ?cwd = "[(''wat'', Dir [(''a.wat'', File), (''.hidden.wat'', File),
        (''sub'', Dir [(''x.wat'', File)])])]"
  have h: "\<forall>n\<in>set (listdir (map_of ?cwd ''wat'')). CHR ''/'' \<notin> set n"
    by simp
  have l: "list_all (\<lambda>n. CHR ''/'' \<notin> set n) (listdir (map_of ?cwd ''wat''))"
    by simp
  have g: "glob_wat ?cwd = [''wat/a.wat'']"
    by (simp add: glob_wat_def)
  note t = glob_not_recursive_not_hidden [OF h]
  note t1 = t [THEN conjunct1]
  note t2 = t [THEN conjunct2, THEN conjunct1]
  show ?thesis by (rule conjI [OF l conjI [OF g conjI [OF t1 t2]]])
qed

subsection \<open>C10: every output lands in the output directory\<close>

text \<open>
  C10. For every selected input path the output path is computed without error,
  starts with \<open>wasm/\<close>, ends with \<open>.wasm\<close>, and has no path separator after the
  prefix \<open>wasm/\<close>.
\<close>

theorem out_path_in_output_directory:
  assumes "w \<in> set (glob_wat cwd)"
  shows "\<exists>p. out_path w = Inr p \<and> prefix ''wasm/'' p \<and> suffix ''.wasm'' p \<and>
           CHR ''/'' \<notin> set (drop (length ''wasm/'') p)"
proof -
  from glob_wat_basename [OF assms] obtain stem where
    stem: "spec_basename w = stem @ ''.wat''" by blast
  define n where "n = replace_py ''.wat'' ''.wasm'' (spec_basename w)"
  have n: "n = replace_py ''.wat'' ''.wasm'' stem @ ''.wasm''"
    unfolding n_def by (simp only: stem replace_wat_suffix)
  have sub: "set n \<subseteq> set (spec_basename w) \<union> set ''.wasm''"
    unfolding n_def by (rule set_replace_py)
  have "CHR ''/'' \<notin> set ''.wasm''" by simp
  with sub spec_basename_no_slash [of w] have ns: "CHR ''/'' \<notin> set n" by blast
  have o: "out_path w = Inr (''wasm/'' @ n)"
    unfolding n_def by (rule out_path_total)
  have p: "prefix ''wasm/'' (''wasm/'' @ n)"
    by (rule prefixI) (rule refl)
  have "''wasm/'' @ n = (''wasm/'' @ replace_py ''.wat'' ''.wasm'' stem) @ ''.wasm''"
    unfolding n by (rule append_assoc [symmetric])
  then have s: "suffix ''.wasm'' (''wasm/'' @ n)"
    by (rule suffixI)
  have d: "CHR ''/'' \<notin> set (drop (length ''wasm/'') (''wasm/'' @ n))"
    using ns by simp
  show ?thesis
    by (rule exI [of _ "''wasm/'' @ n"]) (rule conjI [OF o conjI [OF p conjI [OF s d]]])
qed

text \<open>
  C10 at the selected path \<open>wat/a.wat\<close>.
\<close>

theorem out_path_in_output_directory_witness:
  "''wat/a.wat'' \<in> set (glob_wat [(''wat'', Dir [(''a.wat'', File)])]) \<and>
   (\<exists>p. out_path ''wat/a.wat'' = Inr p \<and> prefix ''wasm/'' p \<and> suffix ''.wasm'' p \<and>
      CHR ''/'' \<notin> set (drop (length ''wasm/'') p))"
proof -
  have h: "''wat/a.wat'' \<in> set (glob_wat [(''wat'', Dir [(''a.wat'', File)])])"
    by (simp add: glob_wat_def)
  note t = out_path_in_output_directory [OF h]
  from h t show ?thesis by (rule conjI)
qed

end
